theory Spec2Isabelle
  imports Complex_Main
begin

section \<open>Strings and arrays of the JavaScript runtime\<close>

text \<open>
  File names and extracted text are sequences of code units.  \<open>toLowerCase\<close> is modelled on
  the ASCII letters, which are the only code units whose lower-case form can be one of
  \<open>.\<close>, \<open>p\<close>, \<open>d\<close>, \<open>f\<close>.
\<close>

definition lowerChar :: "char \<Rightarrow> char" where
  "lowerChar c =
     (let n = (of_char c :: nat) in if 65 \<le> n \<and> n \<le> 90 then char_of (n + 32) else c)"

definition toLowerCase :: "string \<Rightarrow> string" where
  "toLowerCase s = map lowerChar s"

definition endsWith :: "string \<Rightarrow> string \<Rightarrow> bool" where
  "endsWith s suf = (length suf \<le> length s \<and> drop (length s - length suf) s = suf)"

text \<open>\<open>Array.prototype.join\<close>: the separator goes between neighbours only.\<close>

fun join :: "string \<Rightarrow> string list \<Rightarrow> string" where
  "join sep [] = []"
| "join sep [x] = x"
| "join sep (x # y # ys) = x @ sep @ join sep (y # ys)"

text \<open>Decimal rendering of a length inside a template literal.\<close>

fun showNat :: "nat \<Rightarrow> string" where
  "showNat n = (if n < 10 then [char_of (48 + n)] else showNat (n div 10) @ [char_of (48 + n mod 10)])"

declare showNat.simps [simp del]

section \<open>The parser port as data\<close>

text \<open>
  \<open>file.arrayBuffer()\<close>, \<open>pdfjsLib.getDocument\<close>, \<open>pdf.getPage\<close> and
  \<open>page.getTextContent\<close> are external.  What they do with a given file is part of the
  file: each of the four awaits either rejects or yields its value.  A document is the list
  of its pages (\<open>numPages\<close> is its length); a page that yields text is the list of the
  \<open>str\<close> of its items, in the order returned.
\<close>

datatype page_outcome = GetPageRejects | GetTextContentRejects | TextItems "string list"

datatype file_outcome = ArrayBufferRejects | GetDocumentRejects | Document "page_outcome list"

record File =
  name :: string
  outcome :: file_outcome

datatype effect =
    ArrayBufferCall string
  | GetDocumentCall string
  | GetPageCall string nat
  | GetTextContentCall string nat
  | ConsoleError string

section \<open>AppComponent\<close>

datatype OutputFormat = Json | Markdown | Text

record ProposalResult =
  answer :: string
  followUpQuestions :: "string list"

record ChatHistoryItem =
  question :: string
  result :: ProposalResult

record AppComponent =
  knowledgeBase :: string
  questionText :: string
  generating :: bool
  error :: "string option"
  chatHistory :: "ChatHistoryItem list"
  showFollowUps :: bool
  showHistory :: bool
  showAbout :: bool
  outputFormat :: OutputFormat
  pdfToView :: "File option"
  selectedFiles :: "File list option"
  processedFileNames :: "string list"
  processingFiles :: bool
  currentlyProcessingFile :: "string option"
  processingSuccess :: "string option"
  fileError :: "string option"
  isDraggingOver :: bool

text \<open>The field initialisers of the class.\<close>

definition initialApp :: AppComponent where
  "initialApp =
     \<lparr> knowledgeBase = [], questionText = [], generating = False, error = None,
       chatHistory = [], showFollowUps = True, showHistory = False, showAbout = False,
       outputFormat = Json, pdfToView = None, selectedFiles = None, processedFileNames = [],
       processingFiles = False, currentlyProcessingFile = None, processingSuccess = None,
       fileError = None, isDraggingOver = False \<rparr>"

subsection \<open>handleFiles\<close>

definition isPdfName :: "string \<Rightarrow> bool" where
  "isPdfName n = endsWith (toLowerCase n) ''.pdf''"

definition ignoredMessage :: "File list \<Rightarrow> string" where
  "ignoredMessage nonPdfFiles =
     ''Please upload only PDF files. The following files were ignored: ''
       @ join '', '' (map name nonPdfFiles)"

definition handleFiles :: "File list option \<Rightarrow> AppComponent \<Rightarrow> AppComponent" where
  "handleFiles files s =
     (case files of
        None \<Rightarrow> s
      | Some fs \<Rightarrow>
          if length fs = 0 then s
          else
            let nonPdfFiles = filter (\<lambda>f. \<not> isPdfName (name f)) fs in
            if length nonPdfFiles > 0 then
              s\<lparr> fileError := Some (ignoredMessage nonPdfFiles), selectedFiles := None \<rparr>
            else
              s\<lparr> pdfToView := None, selectedFiles := Some fs, processingSuccess := None,
                 knowledgeBase := [], processedFileNames := [], chatHistory := [],
                 showHistory := False, error := None, fileError := None \<rparr>)"

subsection \<open>processFiles\<close>

text \<open>
  The locals of one run together with the component.  The trace records every external
  call and every console line, each with the job as it was at that moment.
\<close>

record job =
  component :: AppComponent
  combinedText :: string
  fileNames :: "string list"

type_synonym trace = "(effect \<times> job) list"

definition emit :: "effect \<Rightarrow> job \<times> trace \<Rightarrow> job \<times> trace" where
  "emit e jt = (fst jt, snd jt @ [(e, fst jt)])"

text \<open>The inner loop over the pages \<open>i .. numPages\<close>; \<open>Inl\<close> is a rejected await.\<close>

fun extractPages ::
  "string \<Rightarrow> nat \<Rightarrow> page_outcome list \<Rightarrow> job \<times> trace \<Rightarrow> (job \<times> trace) + (job \<times> trace)" where
  "extractPages nm i [] jt = Inr jt"
| "extractPages nm i (p # ps) jt =
     (let jt1 = emit (GetPageCall nm i) jt in
      case p of
        GetPageRejects \<Rightarrow> Inl jt1
      | GetTextContentRejects \<Rightarrow> Inl (emit (GetTextContentCall nm i) jt1)
      | TextItems items \<Rightarrow>
          (let jt2 = emit (GetTextContentCall nm i) jt1;
               pageText = join '' '' items;
               j3 = (fst jt2)\<lparr> combinedText := combinedText (fst jt2) @ pageText @ ''\<newline>\<newline>'' \<rparr>
           in extractPages nm (i + 1) ps (j3, snd jt2)))"

text \<open>The outer loop over the selected files.\<close>

fun extractFiles :: "File list \<Rightarrow> job \<times> trace \<Rightarrow> (job \<times> trace) + (job \<times> trace)" where
  "extractFiles [] jt = Inr jt"
| "extractFiles (f # fs) jt =
     (let j1 = (fst jt)\<lparr> component := (component (fst jt))\<lparr> currentlyProcessingFile := Some (name f) \<rparr> \<rparr>;
          j2 = j1\<lparr> fileNames := fileNames j1 @ [name f] \<rparr>;
          jt3 = emit (ArrayBufferCall (name f)) (j2, snd jt)
      in case outcome f of
           ArrayBufferRejects \<Rightarrow> Inl jt3
         | GetDocumentRejects \<Rightarrow> Inl (emit (GetDocumentCall (name f)) jt3)
         | Document pages \<Rightarrow>
             (case extractPages (name f) 1 pages (emit (GetDocumentCall (name f)) jt3) of
                Inl thrown \<Rightarrow> Inl thrown
              | Inr jt4 \<Rightarrow> extractFiles fs jt4))"

definition successMessage :: "nat \<Rightarrow> string" where
  "successMessage n = ''Successfully processed '' @ showNat n @ '' document(s).''"

definition failureMessage :: string where
  "failureMessage =
     ''Failed to read or parse one or more PDF files. Please ensure they are valid and not corrupted.''"

definition processFiles :: "AppComponent \<Rightarrow> AppComponent \<times> trace" where
  "processFiles s =
     (case selectedFiles s of
        None \<Rightarrow> (s, [])
      | Some files \<Rightarrow>
          if length files = 0 then (s, [])
          else
            let s1 = s\<lparr> pdfToView := None, processingFiles := True, error := None,
                       chatHistory := [], fileError := None, processingSuccess := None,
                       knowledgeBase := [] \<rparr>;
                start = (\<lparr> component = s1, combinedText = [], fileNames = [] \<rparr>, []);
                settled =
                  (case extractFiles files start of
                     Inr (j, t) \<Rightarrow>
                       (j\<lparr> component := (component j)
                             \<lparr> knowledgeBase := combinedText j,
                               processedFileNames := fileNames j,
                               processingSuccess := Some (successMessage (length files)),
                               selectedFiles := None \<rparr> \<rparr>, t)
                   | Inl thrown \<Rightarrow>
                       (let (j, t) = emit (ConsoleError ''Error processing PDF files:'') thrown
                        in (j\<lparr> component := (component j)
                                 \<lparr> error := Some failureMessage, selectedFiles := None \<rparr> \<rparr>, t)))
            in ((component (fst settled))
                  \<lparr> processingFiles := False, currentlyProcessingFile := None \<rparr>,
                snd settled))"

subsection \<open>clearFiles\<close>

definition clearFiles :: "AppComponent \<Rightarrow> AppComponent" where
  "clearFiles s =
     s\<lparr> selectedFiles := None, processedFileNames := [], processingSuccess := None,
        knowledgeBase := [], fileError := None, chatHistory := [], showHistory := False,
        pdfToView := None, currentlyProcessingFile := None \<rparr>"

subsection \<open>Vocabulary for the properties of the pipeline\<close>

definition pageOk :: "page_outcome \<Rightarrow> bool" where
  "pageOk p = (case p of TextItems items \<Rightarrow> True | _ \<Rightarrow> False)"

definition fileOk :: "File \<Rightarrow> bool" where
  "fileOk f = (case outcome f of Document pages \<Rightarrow> list_all pageOk pages | _ \<Rightarrow> False)"

definition pageChunk :: "page_outcome \<Rightarrow> string" where
  "pageChunk p = (case p of TextItems items \<Rightarrow> join '' '' items @ ''\<newline>\<newline>'' | _ \<Rightarrow> [])"

definition fileText :: "File \<Rightarrow> string" where
  "fileText f = (case outcome f of Document pages \<Rightarrow> concat (map pageChunk pages) | _ \<Rightarrow> [])"

definition settledJob :: "(job \<times> trace) + (job \<times> trace) \<Rightarrow> job" where
  "settledJob r = (case r of Inl jt \<Rightarrow> fst jt | Inr jt \<Rightarrow> fst jt)"

definition settledTrace :: "(job \<times> trace) + (job \<times> trace) \<Rightarrow> trace" where
  "settledTrace r = (case r of Inl jt \<Rightarrow> snd jt | Inr jt \<Rightarrow> snd jt)"

definition frame :: "job \<Rightarrow> AppComponent" where
  "frame j = (component j)\<lparr> currentlyProcessingFile := None \<rparr>"

text \<open>One file of the outer loop, up to the page loop.\<close>

definition opened :: "File \<Rightarrow> job \<Rightarrow> job" where
  "opened f j =
     j\<lparr> component := (component j)\<lparr> currentlyProcessingFile := Some (name f) \<rparr>,
        fileNames := fileNames j @ [name f] \<rparr>"

definition openedTrace :: "File \<Rightarrow> job \<Rightarrow> trace" where
  "openedTrace f j = [(ArrayBufferCall (name f), opened f j), (GetDocumentCall (name f), opened f j)]"

definition during :: "job \<Rightarrow> File list \<Rightarrow> job \<Rightarrow> bool" where
  "during j fs snap \<longleftrightarrow>
     frame snap = frame j \<and>
     (\<exists>k. 0 < k \<and> k \<le> length fs \<and> fileNames snap = fileNames j @ map name (take k fs)
        \<and> currentlyProcessingFile (component snap) = Some (name (fs ! (k - 1))))"

definition begun :: "AppComponent \<Rightarrow> AppComponent" where
  "begun s = s\<lparr> pdfToView := None, processingFiles := True, error := None,
                chatHistory := [], fileError := None, processingSuccess := None,
                knowledgeBase := [] \<rparr>"

definition startJob :: "AppComponent \<Rightarrow> job" where
  "startJob s = \<lparr> component = begun s, combinedText = [], fileNames = [] \<rparr>"

subsection \<open>Example files\<close>

definition xPdf :: File where
  "xPdf = \<lparr> name = ''x.pdf'', outcome = Document [TextItems [''A''], TextItems [''B'']] \<rparr>"

definition yPdf :: File where
  "yPdf = \<lparr> name = ''y.pdf'', outcome = Document [TextItems [''C'']] \<rparr>"

definition yBroken :: File where
  "yBroken = \<lparr> name = ''y.pdf'', outcome = GetDocumentRejects \<rparr>"

definition zPdf :: File where
  "zPdf = \<lparr> name = ''z.pdf'', outcome = Document [TextItems [''D'', ''E'']] \<rparr>"

definition aPdf :: File where
  "aPdf = \<lparr> name = ''a.pdf'', outcome = Document [TextItems [''A'']] \<rparr>"

definition bTxt :: File where
  "bTxt = \<lparr> name = ''b.txt'', outcome = Document [TextItems [''B'']] \<rparr>"

definition cPdf :: File where
  "cPdf = \<lparr> name = ''c.PDF'', outcome = Document [TextItems [''C'']] \<rparr>"

definition claimedBatch :: AppComponent where
  "claimedBatch = initialApp\<lparr> selectedFiles := Some [xPdf, yPdf] \<rparr>"

definition staleBatch :: AppComponent where
  "staleBatch = initialApp\<lparr> knowledgeBase := ''earlier text'', selectedFiles := Some [xPdf, yBroken] \<rparr>"

definition afterFirstBatch :: AppComponent where
  "afterFirstBatch = fst (processFiles (handleFiles (Some [xPdf]) initialApp))"

definition cutBatch :: AppComponent where
  "cutBatch = initialApp\<lparr> processedFileNames := [''w.pdf''], selectedFiles := Some [xPdf, yBroken, zPdf] \<rparr>"

definition unreadable :: File where
  "unreadable = \<lparr> name = ''bad.pdf'', outcome = ArrayBufferRejects \<rparr>"

definition unreadableBatch :: AppComponent where
  "unreadableBatch = initialApp\<lparr> selectedFiles := Some [unreadable] \<rparr>"

definition busyBatch :: AppComponent where
  "busyBatch = initialApp
     \<lparr> knowledgeBase := ''earlier text'',
       chatHistory := [\<lparr> question = ''What is offered?'', result = \<lparr> answer = ''Everything.'', followUpQuestions = [] \<rparr> \<rparr>],
       selectedFiles := Some [xPdf, yBroken] \<rparr>"

section \<open>PdfViewerComponent\<close>

text \<open>
  The viewer's methods are asynchronous: each runs up to its next \<open>await\<close> and is resumed
  when the awaited promise settles.  A session holds the component, the suspended
  activations of \<open>loadPdf\<close> and \<open>renderPage\<close>, the render tasks pdf.js has handed out, the
  canvas, the calls of \<open>destroy\<close> made so far and the console.  The event loop is a list of
  events, run one after the other; what each awaited promise settles to is part of the data
  (the file or document it was asked of), when it settles is up to the schedule.

  Taken from the platform: the canvas element is in the view and \<open>destroy\<close> resolves;
  whether \<open>getContext\<close> yields a context is a field of the session.

  Numbers: \<open>scale\<close> starts at 1.5 and moves by 0.25 between 0.5 and 3.0; these values and
  their sums are exact in binary floating point, so exact rationals model them.
\<close>

record PDFDocumentProxy =
  docId :: nat
  docPages :: "page_outcome list"

definition numPages :: "PDFDocumentProxy \<Rightarrow> int" where
  "numPages d = int (length (docPages d))"

datatype render_status = Running | Finished | Failed | Cancelled

record RenderTask =
  taskDoc :: nat
  taskPage :: int
  taskScale :: rat
  status :: render_status

record PdfViewerComponent =
  isLoading :: bool
  error_v :: "string option"
  currentPage :: int
  totalPages :: int
  scale :: rat
  pdfDoc :: "PDFDocumentProxy option"
  renderTask :: "nat option"

definition minScale :: rat where
  "minScale = 1 / 2"

definition maxScale :: rat where
  "maxScale = 3"

text \<open>Where a suspended call is waiting, with the locals it still needs.\<close>

datatype activation =
    LoadAwaitsDestroy File
  | LoadAwaitsArrayBuffer File
  | LoadAwaitsGetDocument File
  | RenderAwaitsGetPage PDFDocumentProxy int
  | RenderAwaitsTask nat

datatype console_line = ErrorLine string | UnhandledRejection string

text \<open>
  The canvas: the viewport it was last sized for and the page drawn on it, each as
  (document, page, scale).  Assigning \<open>width\<close> or \<open>height\<close> clears the bitmap.  A render task
  draws its page when it completes.
\<close>

record canvas =
  sizedFor :: "(nat \<times> int \<times> rat) option"
  drawn :: "(nat \<times> int \<times> rat) option"

record session =
  viewer :: PdfViewerComponent
  suspended :: "(nat \<times> activation) list"
  nextId :: nat
  renderTasks :: "RenderTask list"
  surface :: canvas
  hasContext :: bool
  destroyCalls :: "nat list"
  console :: "console_line list"

definition initialSession :: session where
  "initialSession =
     \<lparr> viewer = \<lparr> isLoading = True, error_v = None, currentPage = 1, totalPages = 0,
                  scale = 3 / 2, pdfDoc = None, renderTask = None \<rparr>,
       suspended = [], nextId = 0, renderTasks = [],
       surface = \<lparr> sizedFor = None, drawn = None \<rparr>, hasContext = True,
       destroyCalls = [], console = [] \<rparr>"

definition suspend :: "nat \<Rightarrow> activation \<Rightarrow> session \<Rightarrow> session" where
  "suspend i a s = s\<lparr> suspended := suspended s @ [(i, a)] \<rparr>"

definition spawn :: "activation \<Rightarrow> session \<Rightarrow> session" where
  "spawn a s = suspend (nextId s) a (s\<lparr> nextId := nextId s + 1 \<rparr>)"

text \<open>
  A call of \<open>renderPage\<close> that waits for a render task has nobody waiting for it in turn:
  every caller drops the promise and \<open>renderPage\<close> has no \<open>try\<close>.  When the task's promise
  rejects, the call ends with a rejection that nothing handles.
\<close>

definition awaits :: "nat \<Rightarrow> nat \<times> activation \<Rightarrow> bool" where
  "awaits tid ia = (snd ia = RenderAwaitsTask tid)"

definition rejectAwaiting :: "nat \<Rightarrow> string \<Rightarrow> session \<Rightarrow> session" where
  "rejectAwaiting tid reason s =
     s\<lparr> suspended := filter (\<lambda>ia. \<not> awaits tid ia) (suspended s),
        console := console s @ map (\<lambda>ia. UnhandledRejection reason) (filter (awaits tid) (suspended s)) \<rparr>"

definition isRunning :: "nat \<Rightarrow> session \<Rightarrow> bool" where
  "isRunning tid s = (tid < length (renderTasks s) \<and> status (renderTasks s ! tid) = Running)"

definition setStatus :: "nat \<Rightarrow> render_status \<Rightarrow> session \<Rightarrow> session" where
  "setStatus tid st s = s\<lparr> renderTasks := (renderTasks s)[tid := (renderTasks s ! tid)\<lparr> status := st \<rparr>] \<rparr>"

text \<open>
  \<open>RenderTask.cancel()\<close> of pdf.js: a running task stops without drawing and its promise
  rejects with a \<open>RenderingCancelledException\<close>; on a task that has ended it does nothing.
\<close>

definition cancel :: "nat \<Rightarrow> session \<Rightarrow> session" where
  "cancel tid s =
     (if isRunning tid s
      then rejectAwaiting tid ''RenderingCancelledException'' (setStatus tid Cancelled s)
      else s)"

text \<open>\<open>renderPage\<close> up to \<open>await this.pdfDoc.getPage(pageNum)\<close>.\<close>

definition renderPage :: "int \<Rightarrow> session \<Rightarrow> session" where
  "renderPage pageNum s =
     (case pdfDoc (viewer s) of
        None \<Rightarrow> s
      | Some d \<Rightarrow>
          if pageNum < 1 \<or> pageNum > totalPages (viewer s) then s
          else
            let s1 = (case renderTask (viewer s) of Some tid \<Rightarrow> cancel tid s | None \<Rightarrow> s)
            in spawn (RenderAwaitsGetPage d pageNum) s1)"

text \<open>\<open>getPage\<close> is 1-indexed and rejects outside the document.\<close>

definition getPageResolves :: "PDFDocumentProxy \<Rightarrow> int \<Rightarrow> bool" where
  "getPageResolves d n =
     (1 \<le> n \<and> n \<le> numPages d \<and> docPages d ! nat (n - 1) \<noteq> GetPageRejects)"

text \<open>
  \<open>renderPage\<close> from the settled \<open>getPage\<close> to \<open>await this.renderTask.promise\<close>: the scale is
  read now, the canvas is sized, the task is started and tracked.
\<close>

definition startRender :: "nat \<Rightarrow> PDFDocumentProxy \<Rightarrow> int \<Rightarrow> session \<Rightarrow> session" where
  "startRender i d n s =
     (if \<not> getPageResolves d n then s\<lparr> console := console s @ [UnhandledRejection ''getPage''] \<rparr>
      else if \<not> hasContext s then s
      else
        let sc = scale (viewer s);
            tid = length (renderTasks s)
        in suspend i (RenderAwaitsTask tid)
             (s\<lparr> surface := \<lparr> sizedFor = Some (docId d, n, sc), drawn = None \<rparr>,
                 renderTasks := renderTasks s @
                   [\<lparr> taskDoc = docId d, taskPage = n, taskScale = sc, status = Running \<rparr>],
                 viewer := (viewer s)\<lparr> renderTask := Some tid \<rparr> \<rparr>))"

text \<open>\<open>loadPdf\<close> up to its first \<open>await\<close>.\<close>

definition loadPdf :: "File \<Rightarrow> session \<Rightarrow> session" where
  "loadPdf file s =
     (let s1 = s\<lparr> viewer := (viewer s)\<lparr> isLoading := True, error_v := None, currentPage := 1,
                                       totalPages := 0, scale := 3 / 2 \<rparr> \<rparr>
      in case pdfDoc (viewer s1) of
           Some d \<Rightarrow> spawn (LoadAwaitsDestroy file) (s1\<lparr> destroyCalls := destroyCalls s1 @ [docId d] \<rparr>)
         | None \<Rightarrow> spawn (LoadAwaitsArrayBuffer file) s1)"

text \<open>The \<open>catch\<close> and \<open>finally\<close> blocks of \<open>loadPdf\<close>.\<close>

definition loadFailed :: "session \<Rightarrow> session" where
  "loadFailed s =
     s\<lparr> console := console s @ [ErrorLine ''Error loading PDF:''],
        viewer := (viewer s)\<lparr> error_v := Some ''Failed to load or parse the PDF file.'',
                             isLoading := False \<rparr> \<rparr>"

text \<open>\<open>loadPdf\<close> from the settled \<open>getDocument\<close> to its end.\<close>

definition attach :: "page_outcome list \<Rightarrow> session \<Rightarrow> session" where
  "attach ps s =
     (let d = \<lparr> docId = nextId s, docPages = ps \<rparr>;
          s1 = s\<lparr> nextId := nextId s + 1,
                 viewer := (viewer s)\<lparr> pdfDoc := Some d, totalPages := numPages d \<rparr> \<rparr>;
          s2 = renderPage (currentPage (viewer s1)) s1
      in s2\<lparr> viewer := (viewer s2)\<lparr> isLoading := False \<rparr> \<rparr>)"

text \<open>The continuation of activation \<open>i\<close> once the promise it waits for has settled.\<close>

fun resume :: "nat \<Rightarrow> activation \<Rightarrow> session \<Rightarrow> session" where
  "resume i (LoadAwaitsDestroy file) s =
     suspend i (LoadAwaitsArrayBuffer file) (s\<lparr> viewer := (viewer s)\<lparr> pdfDoc := None \<rparr> \<rparr>)"
| "resume i (LoadAwaitsArrayBuffer file) s =
     (case outcome file of
        ArrayBufferRejects \<Rightarrow> loadFailed s
      | _ \<Rightarrow> suspend i (LoadAwaitsGetDocument file) s)"
| "resume i (LoadAwaitsGetDocument file) s =
     (case outcome file of
        Document ps \<Rightarrow> attach ps s
      | _ \<Rightarrow> loadFailed s)"
| "resume i (RenderAwaitsGetPage d n) s = startRender i d n s"
| "resume i (RenderAwaitsTask tid) s = s\<lparr> viewer := (viewer s)\<lparr> renderTask := None \<rparr> \<rparr>"

subsection \<open>The commands\<close>

definition nextPage :: "session \<Rightarrow> session" where
  "nextPage s =
     (if currentPage (viewer s) < totalPages (viewer s)
      then let s1 = s\<lparr> viewer := (viewer s)\<lparr> currentPage := currentPage (viewer s) + 1 \<rparr> \<rparr>
           in renderPage (currentPage (viewer s1)) s1
      else s)"

definition prevPage :: "session \<Rightarrow> session" where
  "prevPage s =
     (if currentPage (viewer s) > 1
      then let s1 = s\<lparr> viewer := (viewer s)\<lparr> currentPage := currentPage (viewer s) - 1 \<rparr> \<rparr>
           in renderPage (currentPage (viewer s1)) s1
      else s)"

definition zoomIn :: "session \<Rightarrow> session" where
  "zoomIn s =
     (if scale (viewer s) < maxScale
      then let s1 = s\<lparr> viewer := (viewer s)\<lparr> scale := min maxScale (scale (viewer s) + 1 / 4) \<rparr> \<rparr>
           in renderPage (currentPage (viewer s1)) s1
      else s)"

definition zoomOut :: "session \<Rightarrow> session" where
  "zoomOut s =
     (if scale (viewer s) > minScale
      then let s1 = s\<lparr> viewer := (viewer s)\<lparr> scale := max minScale (scale (viewer s) - 1 / 4) \<rparr> \<rparr>
           in renderPage (currentPage (viewer s1)) s1
      else s)"

definition ngOnDestroy :: "session \<Rightarrow> session" where
  "ngOnDestroy s =
     (case pdfDoc (viewer s) of
        None \<Rightarrow> s
      | Some d \<Rightarrow> s\<lparr> destroyCalls := destroyCalls s @ [docId d] \<rparr>)"

subsection \<open>The event loop\<close>

text \<open>
  \<open>FileChanged\<close> is the effect calling \<open>loadPdf\<close>; \<open>Settle i\<close> resumes activation \<open>i\<close>, which
  waits for \<open>destroy\<close>, \<open>arrayBuffer\<close>, \<open>getDocument\<close> or \<open>getPage\<close>; \<open>RenderDone t\<close> is the
  running task \<open>t\<close> drawing its page and resolving, upon which the call waiting for it goes
  on; \<open>RenderBreaks t\<close> is the running task \<open>t\<close> failing.  An event that cannot happen in the
  session yields \<open>None\<close>.
\<close>

datatype event =
    FileChanged File
  | NextPage
  | PrevPage
  | ZoomIn
  | ZoomOut
  | NgOnDestroy
  | Settle nat
  | RenderDone nat
  | RenderBreaks nat

definition awaitedTask :: "activation \<Rightarrow> bool" where
  "awaitedTask a = (case a of RenderAwaitsTask tid \<Rightarrow> True | _ \<Rightarrow> False)"

definition settle :: "nat \<Rightarrow> session \<Rightarrow> session option" where
  "settle i s =
     (case map_of (suspended s) i of
        None \<Rightarrow> None
      | Some a \<Rightarrow>
          if awaitedTask a then None
          else Some (resume i a (s\<lparr> suspended := filter (\<lambda>ia. fst ia \<noteq> i) (suspended s) \<rparr>)))"

definition renderDone :: "nat \<Rightarrow> session \<Rightarrow> session option" where
  "renderDone tid s =
     (if isRunning tid s
      then
        let t = renderTasks s ! tid;
            s1 = (setStatus tid Finished s)
                   \<lparr> surface := (surface s)\<lparr> drawn := Some (taskDoc t, taskPage t, taskScale t) \<rparr> \<rparr>;
            waiting = filter (awaits tid) (suspended s1);
            s2 = s1\<lparr> suspended := filter (\<lambda>ia. \<not> awaits tid ia) (suspended s1) \<rparr>
        in Some (fold (\<lambda>ia. resume (fst ia) (snd ia)) waiting s2)
      else None)"

definition renderBreaks :: "nat \<Rightarrow> session \<Rightarrow> session option" where
  "renderBreaks tid s =
     (if isRunning tid s
      then Some (rejectAwaiting tid ''RenderError'' (setStatus tid Failed s))
      else None)"

fun step :: "event \<Rightarrow> session \<Rightarrow> session option" where
  "step (FileChanged file) s = Some (loadPdf file s)"
| "step NextPage s = Some (nextPage s)"
| "step PrevPage s = Some (prevPage s)"
| "step ZoomIn s = Some (zoomIn s)"
| "step ZoomOut s = Some (zoomOut s)"
| "step NgOnDestroy s = Some (ngOnDestroy s)"
| "step (Settle i) s = settle i s"
| "step (RenderDone tid) s = renderDone tid s"
| "step (RenderBreaks tid) s = renderBreaks tid s"

fun run :: "event list \<Rightarrow> session \<Rightarrow> session option" where
  "run [] s = Some s"
| "run (e # es) s = (case step e s of None \<Rightarrow> None | Some s' \<Rightarrow> run es s')"

subsection \<open>Vocabulary for the properties of the viewer\<close>


text \<open>The suspended calls of \<open>loadPdf\<close>.\<close>

fun isLoad :: "activation \<Rightarrow> bool" where
  "isLoad (LoadAwaitsDestroy file) = True"
| "isLoad (LoadAwaitsArrayBuffer file) = True"
| "isLoad (LoadAwaitsGetDocument file) = True"
| "isLoad (RenderAwaitsGetPage d n) = False"
| "isLoad (RenderAwaitsTask tid) = False"

definition loads :: "session \<Rightarrow> (nat \<times> activation) list" where
  "loads s = filter (\<lambda>ia. isLoad (snd ia)) (suspended s)"





text \<open>Removing the settled activation.\<close>

definition without :: "nat \<Rightarrow> session \<Rightarrow> session" where
  "without i s = s\<lparr> suspended := filter (\<lambda>ia. fst ia \<noteq> i) (suspended s) \<rparr>"

text \<open>Activation ids are handed out once: they are distinct and below the counter.\<close>

definition wellIds :: "session \<Rightarrow> bool" where
  "wellIds s \<longleftrightarrow>
     distinct (map fst (suspended s)) \<and> (\<forall>ia \<in> set (suspended s). fst ia < nextId s)"



text \<open>No render of document \<open>old\<close> is outstanding: none waits for a page, none is being drawn.\<close>

fun rendersOf :: "nat \<Rightarrow> activation \<Rightarrow> bool" where
  "rendersOf old (RenderAwaitsGetPage d n) = (docId d = old)"
| "rendersOf old a = False"

definition noneOf :: "nat \<Rightarrow> session \<Rightarrow> bool" where
  "noneOf old s \<longleftrightarrow>
     (\<forall>ia \<in> set (suspended s). \<not> rendersOf old (snd ia))
     \<and> (\<forall>t \<in> set (renderTasks s). status t = Running \<longrightarrow> taskDoc t \<noteq> old)"

text \<open>The fields a load writes.\<close>

definition core :: "session \<Rightarrow> PDFDocumentProxy option \<times> bool \<times> int \<times> string option" where
  "core s = (pdfDoc (viewer s), isLoading (viewer s), totalPages (viewer s), error_v (viewer s))"

text \<open>A load is under way: the fields as \<open>loadPdf\<close> sets them at its start.\<close>

definition loading :: "PDFDocumentProxy option \<Rightarrow> session \<Rightarrow> bool" where
  "loading doc s \<longleftrightarrow>
     pdfDoc (viewer s) = doc \<and> isLoading (viewer s) \<and> totalPages (viewer s) = 0
     \<and> error_v (viewer s) = None"





text \<open>Projections of a session, for stating what a run ends in.\<close>

definition pageOfTotal :: "session \<Rightarrow> int \<times> int" where
  "pageOfTotal s = (currentPage (viewer s), totalPages (viewer s))"



definition renderSummary ::
  "session \<Rightarrow> int \<times> rat \<times> (nat \<times> int \<times> rat) option \<times> (nat \<times> activation) list \<times> render_status list" where
  "renderSummary s =
     (currentPage (viewer s), scale (viewer s), drawn (surface s), suspended s,
      map status (renderTasks s))"

subsection \<open>Example documents, schedules and sessions\<close>



definition threePages :: File where
  "threePages = \<lparr> name = ''three.pdf'',
                  outcome = Document [TextItems [''1''], TextItems [''2''], TextItems [''3'']] \<rparr>"






text \<open>
  A three-page document is loaded and its first page drawn; then \<open>nextPage\<close> is called twice
  before either \<open>getPage\<close> settles.
\<close>

definition twoQuickSteps :: "event list" where
  "twoQuickSteps =
     [FileChanged threePages, Settle 0, Settle 0, Settle 2, RenderDone 0,
      NextPage, NextPage, Settle 3, Settle 4, RenderDone 2, RenderDone 1]"

definition twoQuickStepsOneBroken :: "event list" where
  "twoQuickStepsOneBroken =
     [FileChanged threePages, Settle 0, Settle 0, Settle 2, RenderDone 0,
      NextPage, NextPage, Settle 3, Settle 4, RenderBreaks 2, RenderDone 1]"

text \<open>
  A three-page document is loaded; while its first page is still being drawn, \<open>nextPage\<close>
  is called.
\<close>

definition stepWhileDrawing :: "event list" where
  "stepWhileDrawing =
     [FileChanged threePages, Settle 0, Settle 0, Settle 2, NextPage, Settle 3, RenderDone 1]"




section \<open>Properties of the extraction pipeline\<close>

lemma extractPages_ok:
  "list_all pageOk ps \<Longrightarrow>
   \<exists>t'. extractPages nm i ps (j, t) = Inr (j\<lparr> combinedText := combinedText j @ concat (map pageChunk ps) \<rparr>, t @ t')"
proof (induction ps arbitrary: i j t)
  case Nil
  then show ?case by simp
next
  case (Cons p ps)
  from Cons.prems have rest: "list_all pageOk ps" and "pageOk p"
    by simp_all
  then obtain items where p: "p = TextItems items"
    by (cases p) (simp_all add: pageOk_def)
  let ?j3 = "j\<lparr> combinedText := combinedText j @ join '' '' items @ ''\<newline>\<newline>'' \<rparr>"
  let ?t2 = "t @ [(GetPageCall nm i, j), (GetTextContentCall nm i, j)]"
  have step: "extractPages nm i (p # ps) (j, t) = extractPages nm (i + 1) ps (?j3, ?t2)"
    by (simp add: p emit_def Let_def)
  from Cons.IH [OF rest, of "i + 1" ?j3 ?t2] obtain t' where
    "extractPages nm (i + 1) ps (?j3, ?t2) =
       Inr (?j3\<lparr> combinedText := combinedText ?j3 @ concat (map pageChunk ps) \<rparr>, ?t2 @ t')"
    by blast
  then have "extractPages nm i (p # ps) (j, t) =
      Inr (j\<lparr> combinedText := combinedText j @ concat (map pageChunk (p # ps)) \<rparr>,
           t @ ([(GetPageCall nm i, j), (GetTextContentCall nm i, j)] @ t'))"
    unfolding step by (simp add: p pageChunk_def)
  then show ?case by blast
qed

lemma extractPages_fail:
  "\<not> list_all pageOk ps \<Longrightarrow> \<exists>jt. extractPages nm i ps (j, t) = Inl jt"
proof (induction ps arbitrary: i j t)
  case Nil
  then show ?case by simp
next
  case (Cons p ps)
  then show ?case
    by (cases p) (auto simp: pageOk_def emit_def Let_def)
qed

lemma extractPages_frame:
  "\<exists>t'. settledTrace (extractPages nm i ps (j, t)) = t @ t'
      \<and> (\<forall>(e, snap) \<in> set t'. component snap = component j \<and> fileNames snap = fileNames j)
      \<and> component (settledJob (extractPages nm i ps (j, t))) = component j
      \<and> fileNames (settledJob (extractPages nm i ps (j, t))) = fileNames j"
proof (induction ps arbitrary: i j t)
  case Nil
  then show ?case by (simp add: settledTrace_def settledJob_def)
next
  case (Cons p ps)
  show ?case
  proof (cases p)
    case GetPageRejects
    then show ?thesis by (simp add: settledTrace_def settledJob_def emit_def)
  next
    case GetTextContentRejects
    then show ?thesis by (simp add: settledTrace_def settledJob_def emit_def)
  next
    case (TextItems items)
    let ?j3 = "j\<lparr> combinedText := combinedText j @ join '' '' items @ ''\<newline>\<newline>'' \<rparr>"
    let ?t2 = "t @ [(GetPageCall nm i, j), (GetTextContentCall nm i, j)]"
    have step: "extractPages nm i (p # ps) (j, t) = extractPages nm (i + 1) ps (?j3, ?t2)"
      by (simp add: TextItems emit_def Let_def)
    from Cons.IH [of "i + 1" ?j3 ?t2] obtain t' where
      "settledTrace (extractPages nm (i + 1) ps (?j3, ?t2)) = ?t2 @ t'"
      "\<forall>(e, snap) \<in> set t'. component snap = component ?j3 \<and> fileNames snap = fileNames ?j3"
      "component (settledJob (extractPages nm (i + 1) ps (?j3, ?t2))) = component ?j3"
      "fileNames (settledJob (extractPages nm (i + 1) ps (?j3, ?t2))) = fileNames ?j3"
      by blast
    then show ?thesis
      unfolding step
      by (intro exI [of _ "[(GetPageCall nm i, j), (GetTextContentCall nm i, j)] @ t'"]) auto
  qed
qed

lemma opened_simps [simp]:
  "combinedText (opened f j) = combinedText j"
  "fileNames (opened f j) = fileNames j @ [name f]"
  "component (opened f j) = (component j)\<lparr> currentlyProcessingFile := Some (name f) \<rparr>"
  by (simp_all add: opened_def)

lemma fileOk_Document: "outcome f = Document pages \<Longrightarrow> fileOk f = list_all pageOk pages"
  by (simp add: fileOk_def)

lemma fileOk_rejects:
  "outcome f = ArrayBufferRejects \<Longrightarrow> \<not> fileOk f"
  "outcome f = GetDocumentRejects \<Longrightarrow> \<not> fileOk f"
  by (simp_all add: fileOk_def)

lemma fileText_Document: "outcome f = Document pages \<Longrightarrow> fileText f = concat (map pageChunk pages)"
  by (simp add: fileText_def)

lemma extractFiles_Cons:
  "extractFiles (f # fs) (j, t) =
     (case outcome f of
        ArrayBufferRejects \<Rightarrow> Inl (opened f j, t @ [(ArrayBufferCall (name f), opened f j)])
      | GetDocumentRejects \<Rightarrow> Inl (opened f j, t @ openedTrace f j)
      | Document pages \<Rightarrow>
          (case extractPages (name f) (Suc 0) pages (opened f j, t @ openedTrace f j) of
             Inl thrown \<Rightarrow> Inl thrown
           | Inr jt4 \<Rightarrow> extractFiles fs jt4))"
  by (simp add: opened_def openedTrace_def emit_def Let_def split: file_outcome.splits)

declare extractFiles.simps(2) [simp del]

lemma extractFiles_ok:
  "list_all fileOk fs \<Longrightarrow>
   \<exists>j' t'. extractFiles fs (j, t) = Inr (j', t')
      \<and> combinedText j' = combinedText j @ concat (map fileText fs)
      \<and> fileNames j' = fileNames j @ map name fs"
proof (induction fs arbitrary: j t)
  case Nil
  then show ?case by simp
next
  case (Cons f fs)
  from Cons.prems have rest: "list_all fileOk fs" and "fileOk f"
    by simp_all
  then obtain pages where f: "outcome f = Document pages" and pages: "list_all pageOk pages"
    by (cases "outcome f") (simp_all add: fileOk_def)
  let ?t1 = "t @ openedTrace f j"
  let ?j2 = "(opened f j)\<lparr> combinedText := combinedText (opened f j) @ concat (map pageChunk pages) \<rparr>"
  from extractPages_ok [OF pages, of "name f" "Suc 0" "opened f j" ?t1] obtain t2 where
    pg: "extractPages (name f) (Suc 0) pages (opened f j, ?t1) = Inr (?j2, ?t1 @ t2)"
    by blast
  from Cons.IH [OF rest, of ?j2 "?t1 @ t2"] obtain j' t' where
    fs: "extractFiles fs (?j2, ?t1 @ t2) = Inr (j', t')"
    and tx: "combinedText j' = combinedText ?j2 @ concat (map fileText fs)"
    and nms: "fileNames j' = fileNames ?j2 @ map name fs"
    by blast
  have "extractFiles (f # fs) (j, t) = Inr (j', t')"
    using fs by (simp add: extractFiles_Cons f pg)
  moreover have "combinedText j' = combinedText j @ concat (map fileText (f # fs))"
    using tx by (simp add: fileText_Document [OF f])
  moreover have "fileNames j' = fileNames j @ map name (f # fs)"
    using nms by simp
  ultimately show ?case by blast
qed

lemma extractFiles_fail:
  "\<not> list_all fileOk fs \<Longrightarrow> \<exists>jt. extractFiles fs (j, t) = Inl jt"
proof (induction fs arbitrary: j t)
  case Nil
  then show ?case by simp
next
  case (Cons f fs)
  show ?case
  proof (cases "outcome f")
    case ArrayBufferRejects
    then show ?thesis by (simp add: extractFiles_Cons)
  next
    case GetDocumentRejects
    then show ?thesis by (simp add: extractFiles_Cons)
  next
    case (Document pages)
    let ?t1 = "t @ openedTrace f j"
    show ?thesis
    proof (cases "list_all pageOk pages")
      case True
      with Cons.prems have rest: "\<not> list_all fileOk fs"
        by (simp add: fileOk_Document [OF Document])
      from extractPages_ok [OF True, of "name f" "Suc 0" "opened f j" ?t1] obtain j2 t2 where
        pg: "extractPages (name f) (Suc 0) pages (opened f j, ?t1) = Inr (j2, t2)"
        by blast
      from Cons.IH [OF rest, of j2 t2] show ?thesis
        by (simp add: extractFiles_Cons Document pg)
    next
      case False
      from extractPages_fail [OF False, of "name f" "Suc 0" "opened f j" ?t1] obtain jt where
        "extractPages (name f) (Suc 0) pages (opened f j, ?t1) = Inl jt"
        by blast
      then show ?thesis
        by (simp add: extractFiles_Cons Document)
    qed
  qed
qed

lemma extractFiles_abort:
  "list_all fileOk pre \<Longrightarrow> \<not> fileOk f \<Longrightarrow>
   extractFiles (pre @ f # post) jt = extractFiles (pre @ [f]) jt"
proof (induction pre arbitrary: jt)
  case Nil
  obtain j t where jt: "jt = (j, t)" by (cases jt)
  show ?case
  proof (cases "outcome f")
    case (Document pages)
    with Nil have "\<not> list_all pageOk pages" by (simp add: fileOk_Document)
    from extractPages_fail [OF this, of "name f" "Suc 0" "opened f j" "t @ openedTrace f j"]
    obtain thrown where
      "extractPages (name f) (Suc 0) pages (opened f j, t @ openedTrace f j) = Inl thrown"
      by blast
    then show ?thesis
      by (simp add: jt extractFiles_Cons Document)
  qed (simp_all add: jt extractFiles_Cons)
next
  case (Cons g pre)
  obtain j t where jt: "jt = (j, t)" by (cases jt)
  from Cons.prems have "list_all fileOk pre" by simp
  note IH = Cons.IH [OF this Cons.prems(2)]
  show ?case
    by (simp add: jt extractFiles_Cons IH split: file_outcome.splits sum.splits)
qed

lemma frame_opened [simp]: "frame (opened f j) = frame j"
  by (simp add: frame_def)

lemma frame_component: "component a = component b \<Longrightarrow> frame a = frame b"
  by (simp add: frame_def)

lemma during_opened:
  assumes "component snap = component (opened f j)" and "fileNames snap = fileNames (opened f j)"
  shows "during j (f # fs) snap"
proof -
  have "frame snap = frame j"
    using frame_component [OF assms(1)] by simp
  moreover have "fileNames snap = fileNames j @ map name (take 1 (f # fs))"
    using assms(2) by simp
  moreover have "currentlyProcessingFile (component snap) = Some (name ((f # fs) ! (1 - 1)))"
    using assms(1) by simp
  ultimately show ?thesis
    unfolding during_def by (intro conjI exI [of _ 1]) simp_all
qed

lemma during_Cons:
  assumes "during j2 fs snap"
    and "component j2 = component (opened f j)" and "fileNames j2 = fileNames (opened f j)"
  shows "during j (f # fs) snap"
proof -
  from assms(1) obtain k where k: "0 < k" "k \<le> length fs"
    and nm: "fileNames snap = fileNames j2 @ map name (take k fs)"
    and cur: "currentlyProcessingFile (component snap) = Some (name (fs ! (k - 1)))"
    and fr: "frame snap = frame j2"
    unfolding during_def by blast
  have "frame snap = frame j"
    using fr frame_component [OF assms(2)] by simp
  moreover have "fileNames snap = fileNames j @ map name (take (Suc k) (f # fs))"
    using nm assms(3) by simp
  moreover have "currentlyProcessingFile (component snap) = Some (name ((f # fs) ! (Suc k - 1)))"
    using cur k(1) by (cases k) simp_all
  ultimately show ?thesis
    unfolding during_def using k by (intro conjI exI [of _ "Suc k"]) simp_all
qed

lemma extractFiles_during:
  "\<exists>t'. settledTrace (extractFiles fs (j, t)) = t @ t'
      \<and> (\<forall>(e, snap) \<in> set t'. during j fs snap)
      \<and> frame (settledJob (extractFiles fs (j, t))) = frame j
      \<and> (\<forall>thrown. extractFiles fs (j, t) = Inl thrown \<longrightarrow> during j fs (fst thrown))"
proof (induction fs arbitrary: j t)
  case Nil
  then show ?case by (simp add: settledTrace_def settledJob_def)
next
  case (Cons f fs)
  have op: "during j (f # fs) (opened f j)"
    by (rule during_opened) simp_all
  show ?case
  proof (cases "outcome f")
    case ArrayBufferRejects
    then show ?thesis
      using op by (simp add: extractFiles_Cons settledTrace_def settledJob_def)
  next
    case GetDocumentRejects
    then show ?thesis
      using op by (simp add: extractFiles_Cons settledTrace_def settledJob_def openedTrace_def)
  next
    case (Document pages)
    let ?t1 = "t @ openedTrace f j"
    let ?r = "extractPages (name f) (Suc 0) pages (opened f j, ?t1)"
    from extractPages_frame [of "name f" "Suc 0" pages "opened f j" ?t1] obtain t2 where
      tr: "settledTrace ?r = ?t1 @ t2"
      and sn: "\<forall>(e, snap) \<in> set t2. component snap = component (opened f j) \<and> fileNames snap = fileNames (opened f j)"
      and co: "component (settledJob ?r) = component (opened f j)"
      and fn: "fileNames (settledJob ?r) = fileNames (opened f j)"
      by blast
    have "during j (f # fs) snap" if "(e, snap) \<in> set t2" for e snap
    proof -
      from sn that have "component snap = component (opened f j)"
        and "fileNames snap = fileNames (opened f j)"
        by (auto simp del: opened_simps)
      then show ?thesis by (rule during_opened)
    qed
    then have t2: "\<forall>(e, snap) \<in> set (openedTrace f j @ t2). during j (f # fs) snap"
      using op by (auto simp: openedTrace_def)
    show ?thesis
    proof (cases ?r)
      case (Inl thrown)
      have res: "extractFiles (f # fs) (j, t) = Inl thrown"
        by (simp add: extractFiles_Cons Document Inl)
      have "settledTrace (extractFiles (f # fs) (j, t)) = t @ (openedTrace f j @ t2)"
        using tr by (simp add: res Inl settledTrace_def)
      moreover have "frame (settledJob (extractFiles (f # fs) (j, t))) = frame j"
        using frame_component [OF co] by (simp add: res Inl settledJob_def)
      moreover have "during j (f # fs) (fst thrown)"
        using co fn by (intro during_opened) (simp_all add: Inl settledJob_def)
      ultimately show ?thesis using t2 by (simp add: res)
    next
      case (Inr jt4)
      obtain j4 t4 where jt4: "jt4 = (j4, t4)" by (cases jt4)
      have j4: "component j4 = component (opened f j)" "fileNames j4 = fileNames (opened f j)"
        and t4: "t4 = ?t1 @ t2"
        using co fn tr by (simp_all add: Inr jt4 settledJob_def settledTrace_def)
      from Cons.IH [of j4 t4] obtain t' where
        tr': "settledTrace (extractFiles fs (j4, t4)) = t4 @ t'"
        and sn': "\<forall>(e, snap) \<in> set t'. during j4 fs snap"
        and fr': "frame (settledJob (extractFiles fs (j4, t4))) = frame j4"
        and th': "\<forall>thrown. extractFiles fs (j4, t4) = Inl thrown \<longrightarrow> during j4 fs (fst thrown)"
        by blast
      have step: "extractFiles (f # fs) (j, t) = extractFiles fs (j4, t4)"
        by (simp add: extractFiles_Cons Document Inr jt4)
      have "settledTrace (extractFiles (f # fs) (j, t)) = t @ ((openedTrace f j @ t2) @ t')"
        using tr' by (simp add: step t4)
      moreover have "\<forall>(e, snap) \<in> set ((openedTrace f j @ t2) @ t'). during j (f # fs) snap"
        using t2 sn' j4 by (auto intro: during_Cons)
      moreover have "frame (settledJob (extractFiles (f # fs) (j, t))) = frame j"
        using fr' frame_component [OF j4(1)] by (simp add: step)
      moreover have "\<forall>thrown. extractFiles (f # fs) (j, t) = Inl thrown \<longrightarrow> during j (f # fs) (fst thrown)"
        using th' j4 unfolding step by (blast intro: during_Cons)
      ultimately show ?thesis by blast
    qed
  qed
qed

lemma join_names:
  "x \<in> set xs \<Longrightarrow> \<exists>pre post. join sep xs = pre @ x @ post"
proof (induction sep xs rule: join.induct)
  case (1 sep)
  then show ?case by simp
next
  case (2 sep y)
  then have "join sep [y] = [] @ x @ []" by simp
  then show ?case by blast
next
  case (3 sep y z zs)
  show ?case
  proof (cases "x = y")
    case True
    then have "join sep (y # z # zs) = [] @ x @ (sep @ join sep (z # zs))" by simp
    then show ?thesis by blast
  next
    case False
    with 3 obtain pre post where "join sep (z # zs) = pre @ x @ post" by auto
    then have "join sep (y # z # zs) = (y @ sep @ pre) @ x @ post" by simp
    then show ?thesis by blast
  qed
qed

lemma processFiles_Inr:
  assumes "selectedFiles s = Some files" and "files \<noteq> []"
    and "extractFiles files (startJob s, []) = Inr (j, t)"
  shows "processFiles s =
     ((frame j)\<lparr> knowledgeBase := combinedText j, processedFileNames := fileNames j,
                processingSuccess := Some (successMessage (length files)),
                selectedFiles := None, processingFiles := False \<rparr>, t)"
  using assms by (simp add: processFiles_def startJob_def begun_def frame_def)

lemma processFiles_Inl:
  assumes "selectedFiles s = Some files" and "files \<noteq> []"
    and "extractFiles files (startJob s, []) = Inl (j, t)"
  shows "processFiles s =
     ((frame j)\<lparr> error := Some failureMessage, selectedFiles := None, processingFiles := False \<rparr>,
      t @ [(ConsoleError ''Error processing PDF files:'', j)])"
  using assms by (simp add: processFiles_def startJob_def begun_def frame_def emit_def)

lemma frame_startJob:
  "frame (startJob s) = s\<lparr> pdfToView := None, processingFiles := True, error := None,
                chatHistory := [], fileError := None, processingSuccess := None,
                knowledgeBase := [], currentlyProcessingFile := None \<rparr>"
  by (simp add: frame_def startJob_def begun_def)

lemma processFiles_success:
  assumes sel: "selectedFiles s = Some files" and ne: "files \<noteq> []" and ok: "list_all fileOk files"
  shows "fst (processFiles s) =
     s\<lparr> pdfToView := None, error := None, chatHistory := [], fileError := None,
        currentlyProcessingFile := None,
        knowledgeBase := concat (map fileText files),
        processedFileNames := map name files,
        processingSuccess := Some (successMessage (length files)),
        selectedFiles := None, processingFiles := False \<rparr>"
proof -
  from extractFiles_ok [OF ok, of "startJob s" "[]"] obtain j t where
    r: "extractFiles files (startJob s, []) = Inr (j, t)"
    and tx: "combinedText j = concat (map fileText files)"
    and nm: "fileNames j = map name files"
    by (auto simp: startJob_def)
  from extractFiles_during [of files "startJob s" "[]"] have "frame j = frame (startJob s)"
    by (auto simp: r settledJob_def)
  then show ?thesis
    by (simp add: processFiles_Inr [OF sel ne r] tx nm frame_startJob)
qed

lemma processFiles_failure:
  assumes sel: "selectedFiles s = Some files" and bad: "\<not> list_all fileOk files"
  shows "fst (processFiles s) =
     s\<lparr> pdfToView := None, chatHistory := [], fileError := None, processingSuccess := None,
        knowledgeBase := [], currentlyProcessingFile := None,
        error := Some failureMessage, selectedFiles := None, processingFiles := False \<rparr>"
proof -
  from bad have ne: "files \<noteq> []" by auto
  from extractFiles_fail [OF bad, of "startJob s" "[]"] obtain j t where
    r: "extractFiles files (startJob s, []) = Inl (j, t)"
    by auto
  from extractFiles_during [of files "startJob s" "[]"] have "frame j = frame (startJob s)"
    by (auto simp: r settledJob_def)
  then show ?thesis
    by (simp add: processFiles_Inl [OF sel ne r] frame_startJob)
qed

lemma processFiles_trace:
  assumes sel: "selectedFiles s = Some files" and ne: "files \<noteq> []"
  shows "\<forall>(e, snap) \<in> set (snd (processFiles s)). during (startJob s) files snap"
proof -
  from extractFiles_during [of files "startJob s" "[]"] obtain t' where
    tr: "settledTrace (extractFiles files (startJob s, [])) = t'"
    and sn: "\<forall>(e, snap) \<in> set t'. during (startJob s) files snap"
    by auto
  show ?thesis
  proof (cases "extractFiles files (startJob s, [])")
    case (Inr jt)
    obtain j t where jt: "jt = (j, t)" by (cases jt)
    from tr sn show ?thesis
      by (simp add: processFiles_Inr [OF sel ne Inr [unfolded jt]] Inr jt settledTrace_def)
  next
    case (Inl jt)
    obtain j t where jt: "jt = (j, t)" by (cases jt)
    from extractFiles_during [of files "startJob s" "[]"] have "during (startJob s) files j"
      by (simp add: Inl jt)
    with tr sn show ?thesis
      by (simp add: processFiles_Inl [OF sel ne Inl [unfolded jt]] Inl jt settledTrace_def)
  qed
qed

lemma extractPages_events:
  "map fst t = map fst t' \<Longrightarrow>
   map fst (settledTrace (extractPages nm i ps (j, t))) = map fst (settledTrace (extractPages nm i ps (j', t')))
   \<and> isl (extractPages nm i ps (j, t)) = isl (extractPages nm i ps (j', t'))"
proof (induction ps arbitrary: i j t j' t')
  case Nil
  then show ?case by (simp add: settledTrace_def)
next
  case (Cons p ps)
  show ?case
  proof (cases p)
    case (TextItems items)
    let ?u = "\<lambda>j. j\<lparr> combinedText := combinedText j @ join '' '' items @ ''\<newline>\<newline>'' \<rparr>"
    let ?e = "\<lambda>j. [(GetPageCall nm i, j), (GetTextContentCall nm i, j)]"
    have "map fst (t @ ?e j) = map fst (t' @ ?e j')"
      using Cons.prems by simp
    from Cons.IH [OF this, of "i + 1" "?u j" "?u j'"] show ?thesis
      by (simp add: TextItems emit_def Let_def)
  qed (simp_all add: Cons.prems settledTrace_def emit_def)
qed

lemma extractFiles_events:
  "map fst t = map fst t' \<Longrightarrow>
   map fst (settledTrace (extractFiles fs (j, t))) = map fst (settledTrace (extractFiles fs (j', t')))
   \<and> isl (extractFiles fs (j, t)) = isl (extractFiles fs (j', t'))"
proof (induction fs arbitrary: j t j' t')
  case Nil
  then show ?case by (simp add: settledTrace_def)
next
  case (Cons f fs)
  have ev: "map fst (t @ openedTrace f j) = map fst (t' @ openedTrace f j')"
    using Cons.prems by (simp add: openedTrace_def)
  show ?case
  proof (cases "outcome f")
    case (Document pages)
    let ?r = "extractPages (name f) (Suc 0) pages (opened f j, t @ openedTrace f j)"
    let ?r' = "extractPages (name f) (Suc 0) pages (opened f j', t' @ openedTrace f j')"
    from extractPages_events [OF ev, of "name f" "Suc 0" pages "opened f j" "opened f j'"]
    have pe: "map fst (settledTrace ?r) = map fst (settledTrace ?r')" and pi: "isl ?r = isl ?r'"
      by simp_all
    show ?thesis
    proof (cases ?r)
      case (Inl a)
      with pi obtain a' where "?r' = Inl a'" by (cases ?r') simp_all
      with Inl pe show ?thesis
        by (simp add: extractFiles_Cons Document settledTrace_def)
    next
      case (Inr b)
      with pi obtain b' where b': "?r' = Inr b'" by (cases ?r') simp_all
      obtain j4 t4 j4' t4' where b: "b = (j4, t4)" "b' = (j4', t4')"
        by (cases b, cases b')
      from pe have "map fst t4 = map fst t4'"
        by (simp add: Inr b' b settledTrace_def)
      from Cons.IH [OF this, of j4 j4'] show ?thesis
        by (simp add: extractFiles_Cons Document Inr b' b)
    qed
  qed (simp_all add: extractFiles_Cons Cons.prems settledTrace_def openedTrace_def)
qed

lemma processFiles_events_cut:
  assumes sel: "selectedFiles s = Some (pre @ f # post)" and ok: "list_all fileOk pre" and bad: "\<not> fileOk f"
  shows "map fst (snd (processFiles s)) =
         map fst (snd (processFiles (s\<lparr> selectedFiles := Some (pre @ [f]) \<rparr>)))"
proof -
  let ?s' = "s\<lparr> selectedFiles := Some (pre @ [f]) \<rparr>"
  have sel': "selectedFiles ?s' = Some (pre @ [f])" by simp
  have bad1: "\<not> list_all fileOk (pre @ [f])" using bad by simp
  from extractFiles_fail [OF bad1, of "startJob s" "[]"] obtain j t where
    r: "extractFiles (pre @ [f]) (startJob s, []) = Inl (j, t)" by auto
  from extractFiles_fail [OF bad1, of "startJob ?s'" "[]"] obtain j' t' where
    r': "extractFiles (pre @ [f]) (startJob ?s', []) = Inl (j', t')" by auto
  have full: "extractFiles (pre @ f # post) (startJob s, []) = Inl (j, t)"
    using extractFiles_abort [OF ok bad, of post "(startJob s, [])"] r by (rule trans)
  from extractFiles_events [of "[]" "[]" "pre @ [f]" "startJob s" "startJob ?s'"]
  have "map fst t = map fst t'"
    by (simp add: r r' settledTrace_def)
  then show ?thesis
    by (simp add: processFiles_Inl [OF sel _ full] processFiles_Inl [OF sel' _ r'])
qed

lemma extractFiles_first:
  "\<exists>rest. settledTrace (extractFiles (f # fs) (j, t)) = t @ (ArrayBufferCall (name f), opened f j) # rest"
proof (cases "outcome f")
  case (Document pages)
  let ?t1 = "t @ openedTrace f j"
  let ?r = "extractPages (name f) (Suc 0) pages (opened f j, ?t1)"
  from extractPages_frame [of "name f" "Suc 0" pages "opened f j" ?t1] obtain t2 where
    tr: "settledTrace ?r = ?t1 @ t2" by blast
  have "\<exists>t3. settledTrace (extractFiles (f # fs) (j, t)) = t @ openedTrace f j @ t3"
  proof (cases ?r)
    case (Inl a)
    with tr show ?thesis
      by (simp add: extractFiles_Cons Document settledTrace_def)
  next
    case (Inr b)
    obtain j4 t4 where b: "b = (j4, t4)" by (cases b)
    from extractFiles_during [of fs j4 t4] obtain t' where
      "settledTrace (extractFiles fs (j4, t4)) = t4 @ t'" by blast
    with tr show ?thesis
      by (simp add: extractFiles_Cons Document Inr b settledTrace_def)
  qed
  then show ?thesis
    by (auto simp: openedTrace_def)
qed (simp_all add: extractFiles_Cons settledTrace_def openedTrace_def)

lemma processFiles_first:
  assumes sel: "selectedFiles s = Some (f # fs)"
  shows "\<exists>rest. snd (processFiles s) = (ArrayBufferCall (name f), opened f (startJob s)) # rest"
proof -
  from extractFiles_first [of f fs "startJob s" "[]"] obtain rest where
    tr: "settledTrace (extractFiles (f # fs) (startJob s, [])) = (ArrayBufferCall (name f), opened f (startJob s)) # rest"
    by auto
  show ?thesis
  proof (cases "extractFiles (f # fs) (startJob s, [])")
    case (Inr jt)
    obtain j t where jt: "jt = (j, t)" by (cases jt)
    from tr show ?thesis
      by (simp add: processFiles_Inr [OF sel _ Inr [unfolded jt]] Inr jt settledTrace_def)
  next
    case (Inl jt)
    obtain j t where jt: "jt = (j, t)" by (cases jt)
    from tr show ?thesis
      by (simp add: processFiles_Inl [OF sel _ Inl [unfolded jt]] Inl jt settledTrace_def)
  qed
qed

text \<open>
  Claim C3.  When at least one submitted name does not end in \<open>.pdf\<close> (case-insensitively),
  \<open>handleFiles\<close> rejects the whole batch: the only fields written are \<open>fileError\<close> and
  \<open>selectedFiles\<close>, so the knowledge text is untouched and the selection is cleared; the
  message contains the name of every rejected file; and, with no selection left, a following
  \<open>processFiles\<close> returns at once without a single external call.
\<close>

theorem handleFiles_rejects_whole_batch:
  assumes "fs \<noteq> []" and "\<exists>f \<in> set fs. \<not> isPdfName (name f)"
  shows "handleFiles (Some fs) s =
           s\<lparr> fileError := Some (ignoredMessage (filter (\<lambda>f. \<not> isPdfName (name f)) fs)),
              selectedFiles := None \<rparr>
       \<and> knowledgeBase (handleFiles (Some fs) s) = knowledgeBase s
       \<and> selectedFiles (handleFiles (Some fs) s) = None
       \<and> (\<forall>f \<in> set fs. \<not> isPdfName (name f) \<longrightarrow>
             (\<exists>pre post. fileError (handleFiles (Some fs) s) = Some (pre @ name f @ post)))
       \<and> processFiles (handleFiles (Some fs) s) = (handleFiles (Some fs) s, [])"
proof -
  let ?bad = "filter (\<lambda>f. \<not> isPdfName (name f)) fs"
  from assms(2) have "?bad \<noteq> []"
    by (simp add: filter_empty_conv)
  with assms(1) have eq: "handleFiles (Some fs) s =
      s\<lparr> fileError := Some (ignoredMessage ?bad), selectedFiles := None \<rparr>"
    by (simp add: handleFiles_def)
  have named: "\<exists>pre post. fileError (handleFiles (Some fs) s) = Some (pre @ name f @ post)"
    if "f \<in> set fs" and "\<not> isPdfName (name f)" for f
  proof -
    from that have "name f \<in> set (map name ?bad)" by simp
    from join_names [OF this, of "'', ''"] obtain pre post where
      "join '', '' (map name ?bad) = pre @ name f @ post" by blast
    then have "fileError (handleFiles (Some fs) s) =
        Some ((''Please upload only PDF files. The following files were ignored: '' @ pre) @ name f @ post)"
      by (simp add: eq ignoredMessage_def)
    then show ?thesis by blast
  qed
  have "processFiles (handleFiles (Some fs) s) = (handleFiles (Some fs) s, [])"
    unfolding eq by (simp add: processFiles_def)
  with eq named show ?thesis by simp
qed

theorem handleFiles_rejects_whole_batch_witness:
  "[aPdf, bTxt, cPdf] \<noteq> [] \<and> isPdfName (name aPdf) \<and> \<not> isPdfName (name bTxt) \<and> isPdfName (name cPdf)
   \<and> fileError (handleFiles (Some [aPdf, bTxt, cPdf]) (initialApp\<lparr> knowledgeBase := ''earlier text'' \<rparr>))
       = Some ''Please upload only PDF files. The following files were ignored: b.txt''
   \<and> knowledgeBase (handleFiles (Some [aPdf, bTxt, cPdf]) (initialApp\<lparr> knowledgeBase := ''earlier text'' \<rparr>))
       = ''earlier text''
   \<and> selectedFiles (handleFiles (Some [aPdf, bTxt, cPdf]) (initialApp\<lparr> knowledgeBase := ''earlier text'' \<rparr>)) = None
   \<and> snd (processFiles (handleFiles (Some [aPdf, bTxt, cPdf]) (initialApp\<lparr> knowledgeBase := ''earlier text'' \<rparr>))) = []"
proof -
  let ?s = "initialApp\<lparr> knowledgeBase := ''earlier text'' \<rparr>"
  have h1: "[aPdf, bTxt, cPdf] \<noteq> []" by simp
  have names: "isPdfName (name aPdf)" "\<not> isPdfName (name bTxt)" "isPdfName (name cPdf)"
    by code_simp+
  then have h2: "\<exists>f \<in> set [aPdf, bTxt, cPdf]. \<not> isPdfName (name f)"
    by simp
  have msg: "ignoredMessage (filter (\<lambda>f. \<not> isPdfName (name f)) [aPdf, bTxt, cPdf]) =
      ''Please upload only PDF files. The following files were ignored: b.txt''"
    by code_simp
  note r = handleFiles_rejects_whole_batch [OF h1 h2, of ?s]
  have k1: "fileError (handleFiles (Some [aPdf, bTxt, cPdf]) ?s)
      = Some ''Please upload only PDF files. The following files were ignored: b.txt''"
    using r [THEN conjunct1] msg by simp
  have k2: "knowledgeBase (handleFiles (Some [aPdf, bTxt, cPdf]) ?s) = ''earlier text''"
    using r [THEN conjunct2, THEN conjunct1] by simp
  have k3: "selectedFiles (handleFiles (Some [aPdf, bTxt, cPdf]) ?s) = None"
    using r [THEN conjunct2, THEN conjunct2, THEN conjunct1] .
  have k4: "snd (processFiles (handleFiles (Some [aPdf, bTxt, cPdf]) ?s)) = []"
    using r [THEN conjunct2, THEN conjunct2, THEN conjunct2, THEN conjunct2] by (simp only: snd_conv)
  show ?thesis
    using h1 names k1 k2 k3 k4 by (intro conjI)
qed

text \<open>
  Claim C2, as stated, fails: the two newlines are appended after every page, not once per
  file.  For \<open>x.pdf\<close> with the pages \<open>A\<close> and \<open>B\<close> followed by \<open>y.pdf\<close> with the page
  \<open>C\<close> the committed text has a separator between \<open>A\<close> and \<open>B\<close>.
\<close>

theorem processFiles_separator_counterexample:
  "knowledgeBase (fst (processFiles claimedBatch)) = ''A\<newline>\<newline>B\<newline>\<newline>C\<newline>\<newline>''
   \<and> knowledgeBase (fst (processFiles claimedBatch)) \<noteq> ''A B\<newline>\<newline>C\<newline>\<newline>''"
proof -
  have "knowledgeBase (fst (processFiles claimedBatch)) = ''A\<newline>\<newline>B\<newline>\<newline>C\<newline>\<newline>''"
    by code_simp
  then show ?thesis by simp
qed

text \<open>
  Claim C2, amended.  When every file of the selection opens and every page yields its text,
  the committed knowledge text is, for each file in input order and each page in ascending
  order, the page's fragments joined by one space followed by two newlines (\<open>pageChunk\<close>),
  all concatenated (\<open>fileText\<close>); the published names are the file names in input order and
  the selection is cleared.
\<close>

theorem processFiles_commits_text:
  assumes "selectedFiles s = Some files" and "files \<noteq> []" and "list_all fileOk files"
  shows "knowledgeBase (fst (processFiles s)) = concat (map fileText files)
       \<and> processedFileNames (fst (processFiles s)) = map name files
       \<and> selectedFiles (fst (processFiles s)) = None"
  by (simp add: processFiles_success [OF assms])

theorem processFiles_commits_text_witness:
  "selectedFiles claimedBatch = Some [xPdf, yPdf] \<and> list_all fileOk [xPdf, yPdf]
   \<and> knowledgeBase (fst (processFiles claimedBatch)) = ''A\<newline>\<newline>B\<newline>\<newline>C\<newline>\<newline>''
   \<and> processedFileNames (fst (processFiles claimedBatch)) = [''x.pdf'', ''y.pdf'']"
proof -
  have h1: "selectedFiles claimedBatch = Some [xPdf, yPdf]" by code_simp
  have h2: "[xPdf, yPdf] \<noteq> []" by simp
  have h3: "list_all fileOk [xPdf, yPdf]" by code_simp
  have t: "concat (map fileText [xPdf, yPdf]) = ''A\<newline>\<newline>B\<newline>\<newline>C\<newline>\<newline>''" by code_simp
  have n: "map name [xPdf, yPdf] = [''x.pdf'', ''y.pdf'']" by code_simp
  note r = processFiles_commits_text [OF h1 h2 h3]
  show ?thesis
    using h1 h3 r [THEN conjunct1] r [THEN conjunct2, THEN conjunct1]
    unfolding t n by (intro conjI)
qed

text \<open>
  Claim C1, as stated, fails: \<open>processFiles\<close> empties the knowledge buffer before the first
  read and its failure path does not put the earlier text back.  Called on a component that
  holds text, the failed run leaves the buffer empty; and along a run of the component the
  text committed by a first batch is gone after a second batch has been selected and failed.
\<close>

theorem processFiles_failure_counterexample:
  "knowledgeBase staleBatch = ''earlier text''
   \<and> knowledgeBase (fst (processFiles staleBatch)) = []
   \<and> knowledgeBase afterFirstBatch = ''A\<newline>\<newline>B\<newline>\<newline>''
   \<and> knowledgeBase (fst (processFiles (handleFiles (Some [xPdf, yBroken]) afterFirstBatch))) = []"
  by (intro conjI; code_simp)

text \<open>
  Claim C1, amended.  When the file \<open>f\<close> is the first of the selection that fails to open or
  to yield a page's text, the run ends in the state written out below: the knowledge buffer
  is empty, no text of the batch is committed, \<open>processedFileNames\<close> keeps its value from
  before the call, the generic error message is set and the selection is cleared.  The run
  stops at \<open>f\<close>: its external calls are those of the batch cut after \<open>f\<close>.
\<close>

theorem processFiles_failure_discards_batch:
  assumes "selectedFiles s = Some (pre @ f # post)" and "list_all fileOk pre" and "\<not> fileOk f"
  shows "fst (processFiles s) =
           s\<lparr> pdfToView := None, chatHistory := [], fileError := None, processingSuccess := None,
              knowledgeBase := [], currentlyProcessingFile := None,
              error := Some failureMessage, selectedFiles := None, processingFiles := False \<rparr>
       \<and> knowledgeBase (fst (processFiles s)) = []
       \<and> processedFileNames (fst (processFiles s)) = processedFileNames s
       \<and> selectedFiles (fst (processFiles s)) = None
       \<and> map fst (snd (processFiles s)) =
           map fst (snd (processFiles (s\<lparr> selectedFiles := Some (pre @ [f]) \<rparr>)))"
proof -
  from assms(3) have bad: "\<not> list_all fileOk (pre @ f # post)" by simp
  note st = processFiles_failure [OF assms(1) bad]
  note ev = processFiles_events_cut [OF assms]
  show ?thesis
    unfolding st using ev by simp
qed

theorem processFiles_failure_discards_batch_witness:
  "selectedFiles cutBatch = Some ([xPdf] @ yBroken # [zPdf]) \<and> list_all fileOk [xPdf] \<and> \<not> fileOk yBroken
   \<and> knowledgeBase (fst (processFiles cutBatch)) = []
   \<and> processedFileNames (fst (processFiles cutBatch)) = [''w.pdf'']
   \<and> selectedFiles (fst (processFiles cutBatch)) = None
   \<and> map fst (snd (processFiles cutBatch)) =
       [ArrayBufferCall ''x.pdf'', GetDocumentCall ''x.pdf'', GetPageCall ''x.pdf'' 1,
        GetTextContentCall ''x.pdf'' 1, GetPageCall ''x.pdf'' 2, GetTextContentCall ''x.pdf'' 2,
        ArrayBufferCall ''y.pdf'', GetDocumentCall ''y.pdf'',
        ConsoleError ''Error processing PDF files:'']"
proof -
  have h1: "selectedFiles cutBatch = Some ([xPdf] @ yBroken # [zPdf])" by code_simp
  have h2: "list_all fileOk [xPdf]" by code_simp
  have h3: "\<not> fileOk yBroken" by code_simp
  have p: "processedFileNames cutBatch = [''w.pdf'']" by code_simp
  have e: "map fst (snd (processFiles (cutBatch\<lparr> selectedFiles := Some ([xPdf] @ [yBroken]) \<rparr>))) =
       [ArrayBufferCall ''x.pdf'', GetDocumentCall ''x.pdf'', GetPageCall ''x.pdf'' 1,
        GetTextContentCall ''x.pdf'' 1, GetPageCall ''x.pdf'' 2, GetTextContentCall ''x.pdf'' 2,
        ArrayBufferCall ''y.pdf'', GetDocumentCall ''y.pdf'',
        ConsoleError ''Error processing PDF files:'']"
    by code_simp
  note r = processFiles_failure_discards_batch [OF h1 h2 h3]
  show ?thesis
    using h1 h2 h3 r [THEN conjunct2, THEN conjunct1]
      r [THEN conjunct2, THEN conjunct2, THEN conjunct1]
      r [THEN conjunct2, THEN conjunct2, THEN conjunct2, THEN conjunct1]
      r [THEN conjunct2, THEN conjunct2, THEN conjunct2, THEN conjunct2]
    unfolding p e by (intro conjI)
qed

text \<open>
  Claim C9, as stated, fails for the list the names are appended to: \<open>fileNames.push\<close>
  comes before the file is read.  For a single file whose bytes cannot be read, the list
  already holds the file's name at the moment \<open>arrayBuffer\<close> is called.
\<close>

theorem processFiles_names_counterexample:
  "fst (hd (snd (processFiles unreadableBatch))) = ArrayBufferCall ''bad.pdf''
   \<and> fileNames (snd (hd (snd (processFiles unreadableBatch)))) = [''bad.pdf'']
   \<and> map fst (snd (processFiles unreadableBatch)) =
        [ArrayBufferCall ''bad.pdf'', ConsoleError ''Error processing PDF files:'']"
  by (intro conjI; code_simp)

text \<open>
  Claim C9, amended.  At every external call of a run the local list \<open>fileNames\<close> holds the
  names of the files up to and including the one being processed, while the published
  \<open>processedFileNames\<close> still has its value from before the call.  The published list is
  written once, at the commit, when every file of the batch has been consumed, and is then
  the list of all names in input order; when the batch fails it is left as it was.
\<close>

theorem processFiles_names_published_at_commit:
  assumes "selectedFiles s = Some files" and "files \<noteq> []"
  shows "(\<forall>(e, snap) \<in> set (snd (processFiles s)).
            processedFileNames (component snap) = processedFileNames s
          \<and> (\<exists>k. 0 < k \<and> k \<le> length files
                \<and> fileNames snap = map name (take k files)
                \<and> currentlyProcessingFile (component snap) = Some (name (files ! (k - 1)))))
       \<and> (list_all fileOk files \<longrightarrow> processedFileNames (fst (processFiles s)) = map name files)
       \<and> (\<not> list_all fileOk files \<longrightarrow> processedFileNames (fst (processFiles s)) = processedFileNames s)"
proof -
  have "processedFileNames (component snap) = processedFileNames s
      \<and> (\<exists>k. 0 < k \<and> k \<le> length files
            \<and> fileNames snap = map name (take k files)
            \<and> currentlyProcessingFile (component snap) = Some (name (files ! (k - 1))))"
    if "(e, snap) \<in> set (snd (processFiles s))" for e snap
  proof -
    from processFiles_trace [OF assms] that have d: "during (startJob s) files snap"
      by auto
    then have "frame snap = frame (startJob s)"
      by (simp add: during_def)
    then have "processedFileNames (frame snap) = processedFileNames (frame (startJob s))"
      by simp
    then have "processedFileNames (component snap) = processedFileNames s"
      by (simp add: frame_def startJob_def begun_def)
    moreover from d have "\<exists>k. 0 < k \<and> k \<le> length files
            \<and> fileNames snap = map name (take k files)
            \<and> currentlyProcessingFile (component snap) = Some (name (files ! (k - 1)))"
      by (simp add: during_def startJob_def)
    ultimately show ?thesis by blast
  qed
  moreover have "processedFileNames (fst (processFiles s)) = map name files" if "list_all fileOk files"
    by (simp add: processFiles_success [OF assms that])
  moreover have "processedFileNames (fst (processFiles s)) = processedFileNames s" if "\<not> list_all fileOk files"
    by (simp add: processFiles_failure [OF assms(1) that])
  ultimately show ?thesis by blast
qed

theorem processFiles_names_published_at_commit_witness:
  "selectedFiles claimedBatch = Some [xPdf, yPdf] \<and> [xPdf, yPdf] \<noteq> [] \<and> list_all fileOk [xPdf, yPdf]
   \<and> processedFileNames (fst (processFiles claimedBatch)) = [''x.pdf'', ''y.pdf'']"
proof -
  have h1: "selectedFiles claimedBatch = Some [xPdf, yPdf]" by code_simp
  have h2: "[xPdf, yPdf] \<noteq> []" by simp
  have h3: "list_all fileOk [xPdf, yPdf]" by code_simp
  have n: "map name [xPdf, yPdf] = [''x.pdf'', ''y.pdf'']" by code_simp
  note r = processFiles_names_published_at_commit [OF h1 h2]
  from r [THEN conjunct2, THEN conjunct1] h3
  have "processedFileNames (fst (processFiles claimedBatch)) = map name [xPdf, yPdf]"
    by (rule mp)
  then show ?thesis
    using h1 h2 h3 unfolding n by (intro conjI)
qed

text \<open>
  Claim C10.  On a non-empty selection the chat history and the knowledge buffer are empty
  at every external call of the run, the first of which is the read of the first file; and
  after a failed batch both are empty, whatever they held before the call.
\<close>

theorem processFiles_clears_before_reading:
  assumes "selectedFiles s = Some files" and "files \<noteq> []"
  shows "(\<forall>(e, snap) \<in> set (snd (processFiles s)).
            knowledgeBase (component snap) = [] \<and> chatHistory (component snap) = [])
       \<and> (\<exists>snap rest. snd (processFiles s) = (ArrayBufferCall (name (hd files)), snap) # rest)
       \<and> (\<not> list_all fileOk files \<longrightarrow>
            knowledgeBase (fst (processFiles s)) = [] \<and> chatHistory (fst (processFiles s)) = [])"
proof -
  have "knowledgeBase (component snap) = [] \<and> chatHistory (component snap) = []"
    if "(e, snap) \<in> set (snd (processFiles s))" for e snap
  proof -
    from processFiles_trace [OF assms] that have "during (startJob s) files snap"
      by auto
    then have fr: "frame snap = frame (startJob s)"
      by (simp add: during_def)
    then have "knowledgeBase (frame snap) = knowledgeBase (frame (startJob s))"
      and "chatHistory (frame snap) = chatHistory (frame (startJob s))"
      by simp_all
    then show ?thesis
      by (simp add: frame_def startJob_def begun_def)
  qed
  moreover have "\<exists>snap rest. snd (processFiles s) = (ArrayBufferCall (name (hd files)), snap) # rest"
  proof -
    from assms(2) obtain f fs where fs: "files = f # fs" by (cases files) auto
    from processFiles_first [OF assms(1) [unfolded fs]] show ?thesis
      by (auto simp: fs)
  qed
  moreover have "knowledgeBase (fst (processFiles s)) = [] \<and> chatHistory (fst (processFiles s)) = []"
    if "\<not> list_all fileOk files"
    by (simp add: processFiles_failure [OF assms(1) that])
  ultimately show ?thesis by blast
qed

theorem processFiles_clears_before_reading_witness:
  "selectedFiles busyBatch = Some [xPdf, yBroken] \<and> [xPdf, yBroken] \<noteq> [] \<and> \<not> list_all fileOk [xPdf, yBroken]
   \<and> knowledgeBase busyBatch = ''earlier text'' \<and> length (chatHistory busyBatch) = 1
   \<and> knowledgeBase (fst (processFiles busyBatch)) = [] \<and> chatHistory (fst (processFiles busyBatch)) = []"
proof -
  have h1: "selectedFiles busyBatch = Some [xPdf, yBroken]" by code_simp
  have h2: "[xPdf, yBroken] \<noteq> []" by simp
  have h3: "\<not> list_all fileOk [xPdf, yBroken]" by code_simp
  have b: "knowledgeBase busyBatch = ''earlier text''" "length (chatHistory busyBatch) = 1"
    by code_simp+
  note r = processFiles_clears_before_reading [OF h1 h2]
  from r [THEN conjunct2, THEN conjunct2] h3
  have "knowledgeBase (fst (processFiles busyBatch)) = [] \<and> chatHistory (fst (processFiles busyBatch)) = []"
    by (rule mp)
  then show ?thesis
    using h1 h2 h3 b by (intro conjI) simp_all
qed


section \<open>Properties of the viewer\<close>

subsection \<open>How the steps change the scale\<close>

lemma viewer_suspend [simp]: "viewer (suspend i a s) = viewer s"
  by (simp add: suspend_def)

lemma viewer_spawn [simp]: "viewer (spawn a s) = viewer s"
  by (simp add: spawn_def)

lemma viewer_rejectAwaiting [simp]: "viewer (rejectAwaiting tid r s) = viewer s"
  by (simp add: rejectAwaiting_def)

lemma viewer_setStatus [simp]: "viewer (setStatus tid st s) = viewer s"
  by (simp add: setStatus_def)

lemma viewer_cancel [simp]: "viewer (cancel tid s) = viewer s"
  by (simp add: cancel_def)

lemma viewer_renderPage [simp]: "viewer (renderPage n s) = viewer s"
  by (simp add: renderPage_def Let_def split: option.splits)

lemma viewer_startRender:
  "viewer (startRender i d n s) =
     (if getPageResolves d n \<and> hasContext s
      then (viewer s)\<lparr> renderTask := Some (length (renderTasks s)) \<rparr>
      else viewer s)"
  by (simp add: startRender_def Let_def)

lemma viewer_loadPdf:
  "viewer (loadPdf file s) =
     (viewer s)\<lparr> isLoading := True, error_v := None, currentPage := 1, totalPages := 0, scale := 3 / 2 \<rparr>"
  by (simp add: loadPdf_def Let_def split: option.splits)

lemma viewer_loadFailed:
  "viewer (loadFailed s) =
     (viewer s)\<lparr> error_v := Some ''Failed to load or parse the PDF file.'', isLoading := False \<rparr>"
  by (simp add: loadFailed_def)

lemma viewer_attach:
  "viewer (attach ps s) =
     (viewer s)\<lparr> pdfDoc := Some \<lparr> docId = nextId s, docPages = ps \<rparr>,
                  totalPages := int (length ps), isLoading := False \<rparr>"
  by (simp add: attach_def Let_def numPages_def)

lemma scale_startRender [simp]: "scale (viewer (startRender i d n s)) = scale (viewer s)"
  by (simp add: viewer_startRender)

lemma scale_resume [simp]: "scale (viewer (resume i a s)) = scale (viewer s)"
  by (cases a) (simp_all add: viewer_loadFailed viewer_attach split: file_outcome.splits)

lemma scale_fold_resume [simp]:
  "scale (viewer (fold (\<lambda>ia. resume (fst ia) (snd ia)) xs s)) = scale (viewer s)"
  by (induction xs arbitrary: s) simp_all




lemma scale_nextPage [simp]: "scale (viewer (nextPage s)) = scale (viewer s)"
  by (simp add: nextPage_def Let_def)

lemma scale_prevPage [simp]: "scale (viewer (prevPage s)) = scale (viewer s)"
  by (simp add: prevPage_def Let_def)

lemma scale_ngOnDestroy [simp]: "scale (viewer (ngOnDestroy s)) = scale (viewer s)"
  by (simp add: ngOnDestroy_def split: option.splits)













subsection \<open>The page invariant when loads come in turn\<close>

lemma loads_suspend: "loads (suspend i a s) = loads s @ (if isLoad a then [(i, a)] else [])"
  by (simp add: loads_def suspend_def)

lemma loads_spawn: "loads (spawn a s) = loads s @ (if isLoad a then [(nextId s, a)] else [])"
  by (simp add: loads_def spawn_def suspend_def)

lemma awaits_not_isLoad: "awaits tid ia \<Longrightarrow> \<not> isLoad (snd ia)"
  by (simp add: awaits_def)

lemma filter_loads_awaits:
  "filter (\<lambda>ia. \<not> awaits tid ia \<and> isLoad (snd ia)) xs = filter (\<lambda>ia. isLoad (snd ia)) xs"
  by (rule filter_cong) (auto dest: awaits_not_isLoad)

lemma loads_rejectAwaiting [simp]: "loads (rejectAwaiting tid r s) = loads s"
  by (simp add: loads_def rejectAwaiting_def filter_loads_awaits)

lemma loads_setStatus [simp]: "loads (setStatus tid st s) = loads s"
  by (simp add: loads_def setStatus_def)

lemma loads_cancel [simp]: "loads (cancel tid s) = loads s"
  by (simp add: cancel_def)

lemma loads_renderPage [simp]: "loads (renderPage n s) = loads s"
  by (simp add: renderPage_def Let_def loads_spawn split: option.splits)

lemma loads_viewer_update [simp]: "loads (s\<lparr> viewer := v \<rparr>) = loads s"
  by (simp add: loads_def)

lemma loads_startRender [simp]: "loads (startRender i d n s) = loads s"
  by (simp add: startRender_def Let_def loads_suspend) (simp add: loads_def)

lemma loads_loadFailed [simp]: "loads (loadFailed s) = loads s"
  by (simp add: loadFailed_def loads_def)

lemma loads_attach [simp]: "loads (attach ps s) = loads s"
proof -
  have "loads (s\<lparr> nextId := k, viewer := v \<rparr>) = loads s" for k v
    by (simp add: loads_def)
  then show ?thesis
    by (simp add: attach_def Let_def)
qed


lemma pageOfTotal_renderPage [simp]: "pageOfTotal (renderPage n s) = pageOfTotal s"
  by (simp add: pageOfTotal_def)

lemma pageOfTotal_startRender [simp]: "pageOfTotal (startRender i d n s) = pageOfTotal s"
  by (simp add: pageOfTotal_def viewer_startRender)

lemma pageOfTotal_loadFailed [simp]: "pageOfTotal (loadFailed s) = pageOfTotal s"
  by (simp add: pageOfTotal_def viewer_loadFailed)

lemma pageOfTotal_loadPdf [simp]: "pageOfTotal (loadPdf f s) = (1, 0)"
  by (simp add: pageOfTotal_def viewer_loadPdf)

lemma pageOfTotal_attach [simp]:
  "pageOfTotal (attach ps s) = (currentPage (viewer s), int (length ps))"
  by (simp add: pageOfTotal_def viewer_attach)





lemma pageOfTotal_without [simp]: "pageOfTotal (without i s) = pageOfTotal s"
  by (simp add: pageOfTotal_def without_def)


lemma pageOfTotal_viewer_pdfDoc [simp]:
  "pageOfTotal (s\<lparr> viewer := (viewer s)\<lparr> pdfDoc := x \<rparr> \<rparr>) = pageOfTotal s"
  by (simp add: pageOfTotal_def)

lemma pageOfTotal_suspend [simp]: "pageOfTotal (suspend i a s) = pageOfTotal s"
  by (simp add: pageOfTotal_def)


lemma loads_resume_task [simp]: "loads (resume i (RenderAwaitsTask tid) s) = loads s"
  by simp


















subsection \<open>Overlapping loads and renders\<close>


text \<open>
  Claim C5 at an input where the code falls short of it.  \<open>renderTask\<close> is assigned only
  after \<open>await getPage\<close>, so of two calls of \<open>renderPage\<close> made before either page has
  arrived neither sees a task to cancel.  Both tasks run; whether the one for page 3 finishes
  before the one for page 2, or fails because the canvas is in use, once everything has
  settled the current page is 3 and the canvas shows page 2.
\<close>

theorem superseded_render_drawn_last:
  "map_option renderSummary (run twoQuickSteps initialSession)
     = Some (3, 3 / 2, Some (1, 2, 3 / 2), [], [Finished, Finished, Finished])
   \<and> map_option renderSummary (run twoQuickStepsOneBroken initialSession)
     = Some (3, 3 / 2, Some (1, 2, 3 / 2), [], [Finished, Finished, Failed])"
  by (intro conjI; code_simp)

text \<open>
  Claim C6 at an input where the code falls short of it.  The render of page 1 is cancelled
  by the call for page 2; the cancelled task's promise rejects inside the first call of
  \<open>renderPage\<close>, which has no \<open>try\<close> and whose promise every caller drops, so the
  cancellation ends as a rejection that nothing handles.
\<close>

theorem cancelled_render_unhandled:
  "map_option console (run stepWhileDrawing initialSession)
     = Some [UnhandledRejection ''RenderingCancelledException'']
   \<and> map_option renderSummary (run stepWhileDrawing initialSession)
     = Some (2, 3 / 2, Some (1, 2, 3 / 2), [], [Cancelled, Finished])"
  by (intro conjI; code_simp)

subsection \<open>A load that supersedes the attached document\<close>

lemma wellIds_filter:
  "wellIds s \<Longrightarrow> wellIds (s\<lparr> suspended := filter P (suspended s) \<rparr>)"
  by (auto simp: wellIds_def distinct_map_filter)



lemma wellIds_setStatus [simp]: "wellIds (setStatus tid st s) = wellIds s"
  by (simp add: wellIds_def setStatus_def)



lemma wellIds_viewer [simp]: "wellIds (s\<lparr> viewer := v \<rparr>) = wellIds s"
  by (simp add: wellIds_def)




lemma destroyCalls_renderPage [simp]: "destroyCalls (renderPage n s) = destroyCalls s"
  by (simp add: renderPage_def Let_def spawn_def suspend_def cancel_def rejectAwaiting_def setStatus_def
      split: option.splits)

lemma surface_renderPage [simp]: "surface (renderPage n s) = surface s"
  by (simp add: renderPage_def Let_def spawn_def suspend_def cancel_def rejectAwaiting_def setStatus_def
      split: option.splits)

lemma nextId_startRender [simp]: "nextId (startRender i d n s) = nextId s"
  by (simp add: startRender_def Let_def suspend_def)

lemma destroyCalls_startRender [simp]: "destroyCalls (startRender i d n s) = destroyCalls s"
  by (simp add: startRender_def Let_def suspend_def)

lemma nextId_without [simp]: "nextId (without i s) = nextId s"
  by (simp add: without_def)

lemma destroyCalls_without [simp]: "destroyCalls (without i s) = destroyCalls s"
  by (simp add: without_def)

lemma viewer_without [simp]: "viewer (without i s) = viewer s"
  by (simp add: without_def)

lemma surface_without [simp]: "surface (without i s) = surface s"
  by (simp add: without_def)

lemma renderTasks_without [simp]: "renderTasks (without i s) = renderTasks s"
  by (simp add: without_def)

lemma suspended_without: "suspended (without i s) = filter (\<lambda>ia. fst ia \<noteq> i) (suspended s)"
  by (simp add: without_def)


lemma wellIds_loadFailed [simp]: "wellIds (loadFailed s) = wellIds s"
  by (simp add: wellIds_def loadFailed_def)









lemma nextId_suspend [simp]: "nextId (suspend i a s) = nextId s"
  by (simp add: suspend_def)

lemma destroyCalls_suspend [simp]: "destroyCalls (suspend i a s) = destroyCalls s"
  by (simp add: suspend_def)

lemma nextId_loadFailed [simp]: "nextId (loadFailed s) = nextId s"
  by (simp add: loadFailed_def)

lemma destroyCalls_loadFailed [simp]: "destroyCalls (loadFailed s) = destroyCalls s"
  by (simp add: loadFailed_def)


lemma destroyCalls_attach [simp]: "destroyCalls (attach ps s) = destroyCalls s"
  by (simp add: attach_def Let_def)


lemma core_renderPage [simp]: "core (renderPage n s) = core s"
  by (simp add: core_def)











lemma core_without [simp]: "core (without i s) = core s"
  by (simp add: core_def)







lemma noneOf_viewer [simp]: "noneOf old (s\<lparr> viewer := v \<rparr>) = noneOf old s"
  by (simp add: noneOf_def)











lemma noneOf_loadFailed [simp]: "noneOf old (loadFailed s) = noneOf old s"
  by (simp add: noneOf_def loadFailed_def)

lemma surface_suspend [simp]: "surface (suspend j a s) = surface s"
  by (simp add: suspend_def)

lemma surface_loadFailed [simp]: "surface (loadFailed s) = surface s"
  by (simp add: loadFailed_def)

lemma surface_attach [simp]: "surface (attach ps s) = surface s"
  by (simp add: attach_def Let_def)















end
